theory Spec2Isabelle
  imports Main "HOL-Library.Word"
begin

section \<open>mydb: one master handle and a set of read replicas\<close>

text \<open>
  The package \<^verbatim>\<open>mydb\<close> (file \<^verbatim>\<open>mydb.go\<close>) wraps one master \<^verbatim>\<open>*sql.DB\<close> and a slice of
  replica \<^verbatim>\<open>*sql.DB\<close> handles. This theory embeds its functions one by one.

  \<^item> A Go \<^verbatim>\<open>error\<close> is the text of its \<^verbatim>\<open>Error()\<close> method; \<^verbatim>\<open>nil\<close> is \<open>None\<close>.
    A Go result pair \<^verbatim>\<open>(v, err)\<close> is a sum, \<open>Inl err\<close> or \<open>Inr v\<close>.
  \<^item> A run-time panic (index out of range, integer division by zero) is the
    constructor \<open>Panic\<close> of the type \<open>outcome\<close>.
  \<^item> The field \<^verbatim>\<open>count\<close> is a Go \<^verbatim>\<open>int\<close>: a 64-bit two's complement integer on the
    usual platforms (32-bit on some, where it wraps the sooner), modelled as a \<open>64 word\<close>
    read with \<open>sint\<close>. Go's \<^verbatim>\<open>%\<close> truncates towards zero, so its result has the sign of
    the dividend.
  \<^item> The \<^verbatim>\<open>database/sql\<close> handles are not part of the package. A handle is a pointer that
    is not \<^verbatim>\<open>nil\<close>, modelled by what each of its methods answers when the package calls
    it. The answers belong to the position of the handle (the master, or an index of the
    slice of replicas) and stand for one call of a function of the package, which calls
    no position twice. Every call the package makes on a handle is written to a list of
    calls, in the order the calls are made.
\<close>

subsection \<open>Values exchanged with database/sql\<close>

type_synonym error = string
type_synonym query = string

datatype Context = Background | WithDeadline nat

datatype arg = ArgInt int | ArgString string | ArgNull

datatype Rows = Rows (Columns: "string list")
datatype Row = Row (rowErr: "error option")
datatype Result = Result (LastInsertId: int) (RowsAffected: int)
datatype Stmt = Stmt (stmtText: query) (stmtTag: nat)
datatype Tx = Tx (txTag: nat)
datatype TxOptions = TxOptions (Isolation: nat) (ReadOnly: bool)

datatype 'a outcome = Returned 'a | Panic string

text \<open>What one \<^verbatim>\<open>*sql.DB\<close> answers to the methods the package calls on it.\<close>

record sqlDB =
  sql_PingContext :: "Context \<Rightarrow> error option"
  sql_QueryContext :: "Context \<Rightarrow> query \<Rightarrow> arg list \<Rightarrow> error + Rows"
  sql_QueryRowContext :: "Context \<Rightarrow> query \<Rightarrow> arg list \<Rightarrow> Row"
  sql_ExecContext :: "Context \<Rightarrow> query \<Rightarrow> arg list \<Rightarrow> error + Result"
  sql_PrepareContext :: "Context \<Rightarrow> query \<Rightarrow> error + Stmt"
  sql_BeginTx :: "Context \<Rightarrow> TxOptions option \<Rightarrow> error + Tx"
  sql_Close :: "error option"

text \<open>The calls made on the handles: which handle (a replica by its slice index) and which method.\<close>

datatype target = Master | Replica int

datatype sql_method = MPing | MQuery | MQueryRow | MExec | MPrepare | MBeginTx | MClose
  | MSetConnMaxLifetime | MSetMaxIdleConns | MSetMaxOpenConns

type_synonym call = "target \<times> sql_method"

subsection \<open>The constants of the package\<close>

definition noReadReplicaError :: string where
  "noReadReplicaError = ''Provide at least one read replica''"

definition pingChannelCloseError :: string where
  "pingChannelCloseError = ''Ping Channel is closed''"

definition noReplicaAvailableError :: string where
  "noReplicaAvailableError = ''No replica is alive for reading data''"

text \<open>\<^verbatim>\<open>%d\<close> of \<^verbatim>\<open>fmt\<close>: the decimal digits of an integer, with a minus sign when negative.\<close>

fun digits :: "nat \<Rightarrow> string" where
  "digits n = (if n < 10 then [char_of (48 + n)] else digits (n div 10) @ [char_of (48 + n mod 10)])"

declare digits.simps [simp del]

definition fmt_d :: "int \<Rightarrow> string" where
  "fmt_d i = (if i < 0 then ''-'' @ digits (nat (- i)) else digits (nat i))"

text \<open>\<^verbatim>\<open>fmt.Errorf(replicaPingFailError, n, s)\<close> with the format \<^verbatim>\<open>"replica db %d ping fail: %s"\<close>.\<close>

definition replicaPingFailError :: "int \<Rightarrow> string \<Rightarrow> string" where
  "replicaPingFailError n s = ''replica db '' @ fmt_d n @ '' ping fail: '' @ s"

text \<open>\<^verbatim>\<open>fmt.Errorf(masterPingFailError, s)\<close> with the format \<^verbatim>\<open>"master's db ping fail: %s"\<close>.\<close>

definition masterPingFailError :: "string \<Rightarrow> string" where
  "masterPingFailError s = ''master'' @ [CHR 0x27] @ ''s db ping fail: '' @ s"

subsection \<open>Go's operators that can panic\<close>

text \<open>\<^verbatim>\<open>a % b\<close> on \<^verbatim>\<open>int\<close>: panics when \<open>b\<close> is zero, truncates towards zero otherwise.\<close>

definition go_rem :: "int \<Rightarrow> int \<Rightarrow> int outcome" where
  "go_rem a b = (if b = 0 then Panic ''integer divide by zero''
                 else Returned (sgn a * (\<bar>a\<bar> mod \<bar>b\<bar>)))"

text \<open>\<^verbatim>\<open>xs[i]\<close> on a slice: panics when \<open>i\<close> is negative or not below the length.\<close>

definition index :: "'a list \<Rightarrow> int \<Rightarrow> 'a outcome" where
  "index xs i = (if 0 \<le> i \<and> i < int (length xs) then Returned (xs ! nat i)
                 else Panic ''index out of range'')"

subsection \<open>The handle DB and its constructor\<close>

text \<open>
  The struct \<^verbatim>\<open>DB\<close>. The mutex \<^verbatim>\<open>m\<close> has no value of its own here: every function below
  is one atomic step of a single caller. The embedded interface \<^verbatim>\<open>IFace\<close> is never set.
\<close>

record DB =
  count :: "64 word"
  master :: sqlDB
  readreplicas :: "sqlDB list"

definition New :: "sqlDB \<Rightarrow> sqlDB list \<Rightarrow> error + DB" where
  "New master_h readreplicas_h =
     (if length readreplicas_h = 0 then Inl noReadReplicaError
      else Inr \<lparr>count = 0, master = master_h, readreplicas = readreplicas_h\<rparr>)"

text \<open>
  \<^verbatim>\<open>readReplicaNumberRoundRobin\<close>: the counter is incremented (two's complement, so the
  successor of \<open>2^63 - 1\<close> is \<open>- 2^63\<close>), then reduced by the number of replicas.
\<close>

definition readReplicaNumberRoundRobin :: "DB \<Rightarrow> DB \<times> int outcome" where
  "readReplicaNumberRoundRobin db =
     (let db' = db\<lparr>count := count db + 1\<rparr>
      in (db', go_rem (sint (count db')) (int (length (readreplicas db')))))"

subsection \<open>Reads with failover: QueryContext\<close>

text \<open>
  The \<^verbatim>\<open>for i := replicaIndex + 1; ; i++\<close> loop of \<^verbatim>\<open>QueryContext\<close>. The loop has no
  bound of its own, so it is a partial function: \<open>None\<close> is a loop that never returns.
  \<open>i\<close> stays below twice the number of replicas on every run that starts from an index
  of the slice, far from the range of \<^verbatim>\<open>int\<close>, and is an unbounded integer here. The list
  \<open>tr\<close> collects the calls made so far.
\<close>

partial_function (option) QueryContext_loop ::
  "DB \<Rightarrow> Context \<Rightarrow> query \<Rightarrow> arg list \<Rightarrow> int \<Rightarrow> int \<Rightarrow> call list
     \<Rightarrow> (call list \<times> (error + Rows) outcome) option" where
  [code]: "QueryContext_loop db ctx q args replicaIndex i tr =
     (case go_rem i (int (length (readreplicas db))) of
        Panic p \<Rightarrow> Some (tr, Panic p)
      | Returned newIndex \<Rightarrow>
          if newIndex = replicaIndex then Some (tr, Returned (Inl noReplicaAvailableError))
          else (case index (readreplicas db) newIndex of
                  Panic p \<Rightarrow> Some (tr, Panic p)
                | Returned h \<Rightarrow>
                    (case sql_QueryContext h ctx q args of
                       Inr rows \<Rightarrow> Some (tr @ [(Replica newIndex, MQuery)], Returned (Inr rows))
                     | Inl e \<Rightarrow> QueryContext_loop db ctx q args replicaIndex (i + 1)
                                 (tr @ [(Replica newIndex, MQuery)]))))"

definition QueryContext ::
  "DB \<Rightarrow> Context \<Rightarrow> query \<Rightarrow> arg list \<Rightarrow> (DB \<times> call list \<times> (error + Rows) outcome) option" where
  "QueryContext db ctx q args =
     (case readReplicaNumberRoundRobin db of
        (db', Panic p) \<Rightarrow> Some (db', [], Panic p)
      | (db', Returned replicaIndex) \<Rightarrow>
          (case index (readreplicas db') replicaIndex of
             Panic p \<Rightarrow> Some (db', [], Panic p)
           | Returned h \<Rightarrow>
               (case sql_QueryContext h ctx q args of
                  Inr rows \<Rightarrow> Some (db', [(Replica replicaIndex, MQuery)], Returned (Inr rows))
                | Inl e \<Rightarrow>
                    (case QueryContext_loop db' ctx q args replicaIndex (replicaIndex + 1)
                            [(Replica replicaIndex, MQuery)] of
                       None \<Rightarrow> None
                     | Some (tr, r) \<Rightarrow> Some (db', tr, r)))))"

definition Query :: "DB \<Rightarrow> query \<Rightarrow> arg list \<Rightarrow> (DB \<times> call list \<times> (error + Rows) outcome) option" where
  "Query db q args = QueryContext db Background q args"

subsection \<open>The single-row read\<close>

definition QueryRowContext ::
  "DB \<Rightarrow> Context \<Rightarrow> query \<Rightarrow> arg list \<Rightarrow> DB \<times> call list \<times> Row outcome" where
  "QueryRowContext db ctx q args =
     (case readReplicaNumberRoundRobin db of
        (db', Panic p) \<Rightarrow> (db', [], Panic p)
      | (db', Returned replicaIndex) \<Rightarrow>
          (case index (readreplicas db') replicaIndex of
             Panic p \<Rightarrow> (db', [], Panic p)
           | Returned h \<Rightarrow>
               (db', [(Replica replicaIndex, MQueryRow)], Returned (sql_QueryRowContext h ctx q args))))"

definition QueryRow :: "DB \<Rightarrow> query \<Rightarrow> arg list \<Rightarrow> DB \<times> call list \<times> Row outcome" where
  "QueryRow db q args = QueryRowContext db Background q args"

subsection \<open>Operations on the master\<close>

definition BeginTx ::
  "DB \<Rightarrow> Context \<Rightarrow> TxOptions option \<Rightarrow> DB \<times> call list \<times> (error + Tx)" where
  "BeginTx db ctx opts = (db, [(Master, MBeginTx)], sql_BeginTx (master db) ctx opts)"

definition Begin :: "DB \<Rightarrow> DB \<times> call list \<times> (error + Tx)" where
  "Begin db = BeginTx db Background None"

definition ExecContext ::
  "DB \<Rightarrow> Context \<Rightarrow> query \<Rightarrow> arg list \<Rightarrow> DB \<times> call list \<times> (error + Result)" where
  "ExecContext db ctx q args = (db, [(Master, MExec)], sql_ExecContext (master db) ctx q args)"

definition Exec :: "DB \<Rightarrow> query \<Rightarrow> arg list \<Rightarrow> DB \<times> call list \<times> (error + Result)" where
  "Exec db q args = ExecContext db Background q args"

subsection \<open>Close and the pool settings\<close>

text \<open>
  The \<^verbatim>\<open>for i := range db.readreplicas\<close> loops: the remaining replicas, the index of the
  first of them, and the variables of the function. In \<^verbatim>\<open>Close\<close> the variable \<^verbatim>\<open>err\<close> is
  assigned on every iteration.
\<close>

fun Close_loop :: "sqlDB list \<Rightarrow> int \<Rightarrow> error option \<Rightarrow> call list \<Rightarrow> error option \<times> call list" where
  "Close_loop [] i e tr = (e, tr)"
| "Close_loop (h # hs) i e tr = Close_loop hs (i + 1) (sql_Close h) (tr @ [(Replica i, MClose)])"

definition Close :: "DB \<Rightarrow> DB \<times> call list \<times> error option" where
  "Close db =
     (let e = sql_Close (master db);
          (e', tr) = Close_loop (readreplicas db) 0 e [(Master, MClose)]
      in (db, tr, e'))"

fun Set_loop :: "sql_method \<Rightarrow> sqlDB list \<Rightarrow> int \<Rightarrow> call list \<Rightarrow> call list" where
  "Set_loop m [] i tr = tr"
| "Set_loop m (h # hs) i tr = Set_loop m hs (i + 1) (tr @ [(Replica i, m)])"

definition SetConnMaxLifetime :: "DB \<Rightarrow> int \<Rightarrow> DB \<times> call list" where
  "SetConnMaxLifetime db d = (db, Set_loop MSetConnMaxLifetime (readreplicas db) 0 [(Master, MSetConnMaxLifetime)])"

definition SetMaxIdleConns :: "DB \<Rightarrow> int \<Rightarrow> DB \<times> call list" where
  "SetMaxIdleConns db n = (db, Set_loop MSetMaxIdleConns (readreplicas db) 0 [(Master, MSetMaxIdleConns)])"

definition SetMaxOpenConns :: "DB \<Rightarrow> int \<Rightarrow> DB \<times> call list" where
  "SetMaxOpenConns db n = (db, Set_loop MSetMaxOpenConns (readreplicas db) 0 [(Master, MSetMaxOpenConns)])"

subsection \<open>The functions of package strings that PrepareContext uses\<close>

text \<open>
  A Go string is a sequence of bytes, read as UTF-8 by \<^verbatim>\<open>strings.TrimSpace\<close> and
  \<^verbatim>\<open>strings.ToLower\<close>. \<^verbatim>\<open>TrimSpace\<close> removes the leading and the trailing code points for
  which \<^verbatim>\<open>unicode.IsSpace\<close> holds; \<open>unicode_spaces\<close> lists their UTF-8 encodings.
  \<^verbatim>\<open>ToLower\<close> is modelled on the ASCII letters only: the bytes of other code points are
  kept as they are, so beyond ASCII the model's result differs from Go's, which
  lower-cases every Unicode letter and re-encodes invalid bytes.
\<close>

definition HasPrefix :: "string \<Rightarrow> string \<Rightarrow> bool" where
  "HasPrefix s pre = (length s \<ge> length pre \<and> take (length pre) s = pre)"

definition unicode_spaces :: "string list" where
  "unicode_spaces =
     [[CHR 0x09], [CHR 0x0A], [CHR 0x0B], [CHR 0x0C], [CHR 0x0D], [CHR 0x20],
      [CHR 0xC2, CHR 0x85], [CHR 0xC2, CHR 0xA0],
      [CHR 0xE1, CHR 0x9A, CHR 0x80],
      [CHR 0xE2, CHR 0x80, CHR 0x80], [CHR 0xE2, CHR 0x80, CHR 0x81],
      [CHR 0xE2, CHR 0x80, CHR 0x82], [CHR 0xE2, CHR 0x80, CHR 0x83],
      [CHR 0xE2, CHR 0x80, CHR 0x84], [CHR 0xE2, CHR 0x80, CHR 0x85],
      [CHR 0xE2, CHR 0x80, CHR 0x86], [CHR 0xE2, CHR 0x80, CHR 0x87],
      [CHR 0xE2, CHR 0x80, CHR 0x88], [CHR 0xE2, CHR 0x80, CHR 0x89],
      [CHR 0xE2, CHR 0x80, CHR 0x8A],
      [CHR 0xE2, CHR 0x80, CHR 0xA8], [CHR 0xE2, CHR 0x80, CHR 0xA9],
      [CHR 0xE2, CHR 0x80, CHR 0xAF], [CHR 0xE2, CHR 0x81, CHR 0x9F],
      [CHR 0xE3, CHR 0x80, CHR 0x80]]"

text \<open>Removing, from the front, every code point whose encoding is in the list \<open>ws\<close>.\<close>

function TrimLeft_in :: "string list \<Rightarrow> string \<Rightarrow> string" where
  "TrimLeft_in ws s =
     (case find (\<lambda>w. w \<noteq> [] \<and> HasPrefix s w) ws of
        None \<Rightarrow> s
      | Some w \<Rightarrow> TrimLeft_in ws (drop (length w) s))"
  by pat_completeness auto
termination
proof (relation "measure (\<lambda>(ws, s). length s)")
  show "wf (measure (\<lambda>(ws, s). length s))" by simp
next
  fix ws :: "string list" and s w :: string
  assume "find (\<lambda>w. w \<noteq> [] \<and> HasPrefix s w) ws = Some w"
  then have "w \<noteq> []" and "HasPrefix s w"
    by (auto simp: find_Some_iff)
  then have "0 < length w" and "length w \<le> length s"
    by (auto simp: HasPrefix_def)
  then have "length s - length w < length s"
    by arith
  then show "((ws, drop (length w) s), (ws, s)) \<in> measure (\<lambda>(ws, s). length s)"
    by simp
qed

declare TrimLeft_in.simps [simp del]

definition TrimSpace :: "string \<Rightarrow> string" where
  "TrimSpace s = rev (TrimLeft_in (map rev unicode_spaces) (rev (TrimLeft_in unicode_spaces s)))"

definition toLower_byte :: "char \<Rightarrow> char" where
  "toLower_byte c = (if (65::nat) \<le> of_char c \<and> of_char c \<le> (90::nat)
                     then char_of (of_char c + (32::nat)) else c)"

definition ToLower :: "string \<Rightarrow> string" where
  "ToLower s = map toLower_byte s"

subsection \<open>Prepare\<close>

text \<open>The loop of \<^verbatim>\<open>prepare\<close>, which is the loop of \<^verbatim>\<open>QueryContext\<close> written a second time.\<close>

partial_function (option) prepare_loop ::
  "DB \<Rightarrow> Context \<Rightarrow> query \<Rightarrow> int \<Rightarrow> int \<Rightarrow> call list
     \<Rightarrow> (call list \<times> (error + Stmt) outcome) option" where
  [code]: "prepare_loop db ctx q replicaIndex i tr =
     (case go_rem i (int (length (readreplicas db))) of
        Panic p \<Rightarrow> Some (tr, Panic p)
      | Returned newIndex \<Rightarrow>
          if newIndex = replicaIndex then Some (tr, Returned (Inl noReplicaAvailableError))
          else (case index (readreplicas db) newIndex of
                  Panic p \<Rightarrow> Some (tr, Panic p)
                | Returned h \<Rightarrow>
                    (case sql_PrepareContext h ctx q of
                       Inr stmt \<Rightarrow> Some (tr @ [(Replica newIndex, MPrepare)], Returned (Inr stmt))
                     | Inl e \<Rightarrow> prepare_loop db ctx q replicaIndex (i + 1)
                                 (tr @ [(Replica newIndex, MPrepare)]))))"

definition prepare ::
  "DB \<Rightarrow> Context \<Rightarrow> query \<Rightarrow> (DB \<times> call list \<times> (error + Stmt) outcome) option" where
  "prepare db ctx q =
     (case readReplicaNumberRoundRobin db of
        (db', Panic p) \<Rightarrow> Some (db', [], Panic p)
      | (db', Returned replicaIndex) \<Rightarrow>
          (case index (readreplicas db') replicaIndex of
             Panic p \<Rightarrow> Some (db', [], Panic p)
           | Returned h \<Rightarrow>
               (case sql_PrepareContext h ctx q of
                  Inr stmt \<Rightarrow> Some (db', [(Replica replicaIndex, MPrepare)], Returned (Inr stmt))
                | Inl e \<Rightarrow>
                    (case prepare_loop db' ctx q replicaIndex (replicaIndex + 1)
                            [(Replica replicaIndex, MPrepare)] of
                       None \<Rightarrow> None
                     | Some (tr, r) \<Rightarrow> Some (db', tr, r)))))"

definition PrepareContext ::
  "DB \<Rightarrow> Context \<Rightarrow> query \<Rightarrow> (DB \<times> call list \<times> (error + Stmt) outcome) option" where
  "PrepareContext db ctx q =
     (let qSmall = ToLower (TrimSpace q)
      in if \<not> HasPrefix qSmall ''select''
         then Some (db, [(Master, MPrepare)], Returned (sql_PrepareContext (master db) ctx q))
         else prepare db ctx q)"

definition Prepare :: "DB \<Rightarrow> query \<Rightarrow> (DB \<times> call list \<times> (error + Stmt) outcome) option" where
  "Prepare db q = PrepareContext db Background q"

subsection \<open>Ping\<close>

text \<open>
  \<^verbatim>\<open>PingContext\<close> pings the master, starts one goroutine \<^verbatim>\<open>db.ping(ctx, i, pingChan)\<close> for
  each replica and receives one response for each replica from the buffered channel
  \<^verbatim>\<open>pingChan\<close>. A channel is its buffer, in the order of the sends, its capacity, and
  whether it has been closed. The deferred \<^verbatim>\<open>close(pingChan)\<close> runs when \<^verbatim>\<open>PingContext\<close>
  returns, after the last receive, and the channel is not visible outside the function.

  Which goroutine sends first is not decided by the program. The model takes that
  order as its argument \<open>sched\<close>: the indices of the goroutines in the order in which they
  send. The receiving loop sees the responses in the order of the sends whether it runs
  during or after them, so the goroutines are run first and the loop after them. A
  receive from an empty channel that is not closed waits for ever: \<open>None\<close>. A panic in a
  goroutine ends the program, and is the outcome of \<open>PingContext\<close> here.
\<close>

record pingChanResponse =
  err :: "error option"

record pingChan =
  chan_buf :: "pingChanResponse list"
  chan_cap :: nat
  chan_closed :: bool

definition make_pingChan :: "nat \<Rightarrow> pingChan" where
  "make_pingChan n = \<lparr>chan_buf = [], chan_cap = n, chan_closed = False\<rparr>"

text \<open>
  \<^verbatim>\<open>ch <- v\<close>: a panic on a closed channel; the value is appended when the buffer has room;
  with a full buffer the sender waits, which is \<open>None\<close> in an order of steps where no
  receive comes before it.
\<close>

definition send :: "pingChan \<Rightarrow> pingChanResponse \<Rightarrow> pingChan outcome option" where
  "send ch v =
     (if chan_closed ch then Some (Panic ''send on closed channel'')
      else if length (chan_buf ch) < chan_cap ch
           then Some (Returned (ch\<lparr>chan_buf := chan_buf ch @ [v]\<rparr>))
           else None)"

text \<open>\<^verbatim>\<open>v, ok := <-ch\<close>: the received value, \<open>ok\<close>, and the channel after the receive.\<close>

definition recv :: "pingChan \<Rightarrow> (pingChanResponse \<times> bool \<times> pingChan) option" where
  "recv ch =
     (case chan_buf ch of
        v # vs \<Rightarrow> Some (v, True, ch\<lparr>chan_buf := vs\<rparr>)
      | [] \<Rightarrow> if chan_closed ch then Some (\<lparr>err = None\<rparr>, False, ch) else None)"

definition ping :: "DB \<Rightarrow> Context \<Rightarrow> int \<Rightarrow> pingChan \<Rightarrow> pingChan outcome option" where
  "ping db ctx i pingChan =
     (case index (readreplicas db) i of
        Panic p \<Rightarrow> Some (Panic p)
      | Returned h \<Rightarrow>
          (let e = (case sql_PingContext h ctx of
                      None \<Rightarrow> None
                    | Some er \<Rightarrow> Some (replicaPingFailError (i + 1) er))
           in send pingChan \<lparr>err = e\<rparr>))"

text \<open>The goroutines, each run to its send, in the order \<open>sched\<close>.\<close>

fun run_pings :: "DB \<Rightarrow> Context \<Rightarrow> nat list \<Rightarrow> pingChan \<Rightarrow> pingChan outcome option" where
  "run_pings db ctx [] pingChan = Some (Returned pingChan)"
| "run_pings db ctx (i # sched) pingChan =
     (case ping db ctx (int i) pingChan of
        None \<Rightarrow> None
      | Some (Panic p) \<Rightarrow> Some (Panic p)
      | Some (Returned pingChan') \<Rightarrow> run_pings db ctx sched pingChan')"

text \<open>\<^verbatim>\<open>strings.Join\<close>.\<close>

fun Join :: "string list \<Rightarrow> string \<Rightarrow> string" where
  "Join [] sep = []"
| "Join [x] sep = x"
| "Join (x # y # ys) sep = x @ sep @ Join (y # ys) sep"

text \<open>
  The receiving loop \<^verbatim>\<open>for i := 0; i < len(db.readreplicas); i++\<close>: \<open>Inl\<close> is the
  \<^verbatim>\<open>return\<close> inside the loop, \<open>Inr\<close> the value of \<^verbatim>\<open>errString\<close> when the loop ends.
\<close>

function PingContext_loop ::
  "DB \<Rightarrow> nat \<Rightarrow> pingChan \<Rightarrow> string list \<Rightarrow> (error + string list) option" where
  "PingContext_loop db i pingChan errString =
     (if i < length (readreplicas db)
      then (case recv pingChan of
              None \<Rightarrow> None
            | Some (chanResp, ok, pingChan') \<Rightarrow>
                if \<not> ok then Some (Inl pingChannelCloseError)
                else (case err chanResp of
                        Some e \<Rightarrow> PingContext_loop db (i + 1) pingChan' (errString @ [e])
                      | None \<Rightarrow> PingContext_loop db (i + 1) pingChan' errString))
      else Some (Inr errString))"
  by pat_completeness auto
termination
  by (relation "measure (\<lambda>(db, i, pingChan, errString). length (readreplicas db) - i)") auto

declare PingContext_loop.simps [simp del]

definition PingContext ::
  "DB \<Rightarrow> Context \<Rightarrow> nat list \<Rightarrow> (DB \<times> call list \<times> error option outcome) option" where
  "PingContext db ctx sched =
     (let errString = (case sql_PingContext (master db) ctx of
                         None \<Rightarrow> []
                       | Some e \<Rightarrow> [masterPingFailError e]);
          pingChan = make_pingChan (length (readreplicas db));
          tr = (Master, MPing) # map (\<lambda>i. (Replica (int i), MPing)) sched
      in case run_pings db ctx sched pingChan of
           None \<Rightarrow> None
         | Some (Panic p) \<Rightarrow> Some (db, tr, Panic p)
         | Some (Returned pingChan') \<Rightarrow>
             (case PingContext_loop db 0 pingChan' errString of
                None \<Rightarrow> None
              | Some (Inl e) \<Rightarrow> Some (db, tr, Returned (Some e))
              | Some (Inr errString') \<Rightarrow>
                  if length errString' > 0
                  then Some (db, tr, Returned (Some (Join errString' [CHR 0x0A])))
                  else Some (db, tr, Returned None)))"

definition Ping :: "DB \<Rightarrow> nat list \<Rightarrow> (DB \<times> call list \<times> error option outcome) option" where
  "Ping db sched = PingContext db Background sched"

section \<open>Notions used to state the properties\<close>

text \<open>
  The state after \<open>k\<close> read calls. Each read call (\<open>QueryContext\<close>, \<open>QueryRowContext\<close>,
  \<open>prepare\<close>) calls the selector once and changes nothing else of the handle, so its effect
  on the handle is that of one call of the selector.
\<close>

fun reads :: "DB \<Rightarrow> nat \<Rightarrow> DB" where
  "reads db 0 = db"
| "reads db (Suc k) = fst (readReplicaNumberRoundRobin (reads db k))"

text \<open>The index that the \<open>k\<close>-th read call on the state \<open>db\<close> gets from the selector, \<open>k \<ge> 1\<close>.\<close>

definition selected_by :: "DB \<Rightarrow> nat \<Rightarrow> int outcome" where
  "selected_by db k = snd (readReplicaNumberRoundRobin (reads db (k - 1)))"

text \<open>
  The failover walk as the specification words it: the replicas are tried in the order
  \<open>start, (start + 1) mod N, (start + 2) mod N, \<dots>\<close>, one full cycle at most; the first
  success is returned, and the error \<open>noReplicaAvailableError\<close> when there is none.
  \<open>first_success\<close> gives the indices that are tried and the result.
\<close>

definition walk_order :: "int \<Rightarrow> nat \<Rightarrow> int list" where
  "walk_order start N = map (\<lambda>j. (start + int j) mod int N) [0..<N]"

fun first_success :: "(int \<Rightarrow> error + 'a) \<Rightarrow> int list \<Rightarrow> int list \<times> (error + 'a)" where
  "first_success f [] = ([], Inl noReplicaAvailableError)"
| "first_success f (i # is) =
     (case f i of
        Inr v \<Rightarrow> ([i], Inr v)
      | Inl e \<Rightarrow> (i # fst (first_success f is), snd (first_success f is)))"

text \<open>
  The failure lines of a health check: the line of the master when its ping fails, and
  the lines of the replicas whose ping fails, in the order \<open>sched\<close> of their responses.
  The replica at slice index \<open>i\<close> is named by the ordinal \<open>i + 1\<close>.
\<close>

definition master_lines :: "DB \<Rightarrow> Context \<Rightarrow> string list" where
  "master_lines db ctx =
     (case sql_PingContext (master db) ctx of None \<Rightarrow> [] | Some e \<Rightarrow> [masterPingFailError e])"

definition replica_fails :: "DB \<Rightarrow> Context \<Rightarrow> nat \<Rightarrow> bool" where
  "replica_fails db ctx i = (sql_PingContext (readreplicas db ! i) ctx \<noteq> None)"

definition replica_lines :: "DB \<Rightarrow> Context \<Rightarrow> nat list \<Rightarrow> string list" where
  "replica_lines db ctx sched =
     map (\<lambda>i. replicaPingFailError (int i + 1) (the (sql_PingContext (readreplicas db ! i) ctx)))
       (filter (replica_fails db ctx) sched)"

text \<open>The response that the goroutine of replica \<open>i\<close> sends, and the \<^verbatim>\<open>errString\<close> entries of a buffer.\<close>

definition response :: "DB \<Rightarrow> Context \<Rightarrow> nat \<Rightarrow> pingChanResponse" where
  "response db ctx i =
     \<lparr>err = (case sql_PingContext (readreplicas db ! i) ctx of
               None \<Rightarrow> None
             | Some er \<Rightarrow> Some (replicaPingFailError (int i + 1) er))\<rparr>"

definition lines_of :: "pingChanResponse list \<Rightarrow> string list" where
  "lines_of vs = map (\<lambda>v. the (err v)) (filter (\<lambda>v. err v \<noteq> None) vs)"

text \<open>What one attempt of a read answers on the replica at index \<open>i\<close>.\<close>

definition query_attempt :: "DB \<Rightarrow> Context \<Rightarrow> query \<Rightarrow> arg list \<Rightarrow> int \<Rightarrow> error + Rows" where
  "query_attempt db ctx q args i = sql_QueryContext (readreplicas db ! nat i) ctx q args"

definition prepare_attempt :: "DB \<Rightarrow> Context \<Rightarrow> query \<Rightarrow> int \<Rightarrow> error + Stmt" where
  "prepare_attempt db ctx q i = sql_PrepareContext (readreplicas db ! nat i) ctx q"

text \<open>Handles for the concrete runs: one that answers every call, one that has been closed.\<close>

definition healthy :: "nat \<Rightarrow> sqlDB" where
  "healthy n =
     \<lparr>sql_PingContext = (\<lambda>ctx. None),
      sql_QueryContext = (\<lambda>ctx q args. Inr (Rows [q])),
      sql_QueryRowContext = (\<lambda>ctx q args. Row None),
      sql_ExecContext = (\<lambda>ctx q args. Inr (Result 123 1)),
      sql_PrepareContext = (\<lambda>ctx q. Inr (Stmt q n)),
      sql_BeginTx = (\<lambda>ctx opts. Inr (Tx n)),
      sql_Close = None\<rparr>"

definition closed_db :: sqlDB where
  "closed_db =
     \<lparr>sql_PingContext = (\<lambda>ctx. Some ''sql: database is closed''),
      sql_QueryContext = (\<lambda>ctx q args. Inl ''sql: database is closed''),
      sql_QueryRowContext = (\<lambda>ctx q args. Row (Some ''sql: database is closed'')),
      sql_ExecContext = (\<lambda>ctx q args. Inl ''sql: database is closed''),
      sql_PrepareContext = (\<lambda>ctx q. Inl ''sql: database is closed''),
      sql_BeginTx = (\<lambda>ctx opts. Inl ''sql: database is closed''),
      sql_Close = Some ''close failed''\<rparr>"

text \<open>A router as \<open>New\<close> returns it, with the given replicas.\<close>

definition fresh :: "sqlDB list \<Rightarrow> DB" where
  "fresh rs = \<lparr>count = 0, master = healthy 0, readreplicas = rs\<rparr>"

section \<open>Construction\<close>

text \<open>
  C7. \<open>New\<close> returns an error exactly when the sequence of replicas is empty; the error is
  \<open>noReadReplicaError\<close>. With at least one replica it returns the handle with the counter
  at zero, whatever the master and the replicas are: nothing else is checked.
\<close>

theorem New_fails_iff_no_replica:
  "((\<exists>e. New m rs = Inl e) \<longleftrightarrow> rs = [])
   \<and> (rs = [] \<longrightarrow> New m rs = Inl noReadReplicaError)
   \<and> (rs \<noteq> [] \<longrightarrow> New m rs = Inr \<lparr>count = 0, master = m, readreplicas = rs\<rparr>)"
  by (simp add: New_def)

theorem New_fails_iff_no_replica_witness:
  "New closed_db [] = Inl noReadReplicaError
   \<and> New closed_db [closed_db] = Inr \<lparr>count = 0, master = closed_db, readreplicas = [closed_db]\<rparr>"
  using New_fails_iff_no_replica [of closed_db "[]"]
    New_fails_iff_no_replica [of closed_db "[closed_db]"]
  by simp

section \<open>The round-robin selector\<close>

lemma go_rem_nonneg: "0 \<le> a \<Longrightarrow> 0 < b \<Longrightarrow> go_rem a b = Returned (a mod b)"
  by (cases "a = 0") (auto simp: go_rem_def)

lemma go_rem_bound: "go_rem a b = Returned s \<Longrightarrow> b \<noteq> 0 \<and> \<bar>s\<bar> < \<bar>b\<bar>"
  by (auto simp: go_rem_def abs_mult split: if_splits)

lemma count_reads: "count (reads db k) = count db + of_nat k"
  by (induction k) (simp_all add: readReplicaNumberRoundRobin_def Let_def)

lemma readreplicas_reads: "readreplicas (reads db k) = readreplicas db"
  by (induction k) (simp_all add: readReplicaNumberRoundRobin_def Let_def)

lemma reads_eq: "reads db k = db\<lparr>count := count db + of_nat k\<rparr>"
  by (induction k) (simp_all add: readReplicaNumberRoundRobin_def Let_def)

lemma sint_of_nat_small: "k < 2 ^ 63 \<Longrightarrow> sint (of_nat k :: 64 word) = int k"
  by (simp add: signed_of_nat signed_take_bit_int_eq_self)

lemma selected_by_eq:
  "selected_by db k = go_rem (sint (count db + of_nat (k - 1) + 1)) (int (length (readreplicas db)))"
  by (simp add: selected_by_def readReplicaNumberRoundRobin_def Let_def count_reads
      readreplicas_reads)

text \<open>
  While the counter has not passed \<open>2^63 - 1\<close> the selector is a round robin: on a router
  with \<open>N \<ge> 1\<close> replicas whose counter is zero, the \<open>k\<close>-th read call gets \<open>k mod N\<close>, which
  is an index of the slice.
\<close>

lemma selected_by_below_overflow:
  assumes "rs \<noteq> []" and "0 < k" and "k < 2 ^ 63"
  shows "selected_by (fresh rs) k = Returned (int k mod int (length rs))"
proof -
  have "count (fresh rs) + of_nat (k - 1) + 1 = (of_nat k :: 64 word)"
    using assms(2) by (simp add: fresh_def)
  then have "selected_by (fresh rs) k = go_rem (sint (of_nat k :: 64 word)) (int (length rs))"
    by (simp add: selected_by_eq fresh_def)
  also have "\<dots> = go_rem (int k) (int (length rs))"
    using assms(3) by (simp add: sint_of_nat_small)
  also have "\<dots> = Returned (int k mod int (length rs))"
    using assms(1) by (simp add: go_rem_nonneg)
  finally show ?thesis .
qed

lemma selector_in_range_while_nonnegative:
  assumes "readreplicas db \<noteq> []" and "0 \<le> sint (count db + 1)"
  shows "\<exists>i. snd (readReplicaNumberRoundRobin db) = Returned i
           \<and> 0 \<le> i \<and> i < int (length (readreplicas db))"
  using assms by (simp add: readReplicaNumberRoundRobin_def Let_def go_rem_nonneg)

text \<open>
  C9. The counter is a Go \<^verbatim>\<open>int\<close>, not an unbounded integer. A fresh router with three
  replicas holds \<open>2^63 - 1\<close> in it after that many read calls. The next call of the selector
  wraps the counter to \<open>- 2^63\<close>, and \<^verbatim>\<open>%\<close> gives a negative result: the selector returns
  \<open>- 2\<close>, which is not an index of the slice, and \<open>QueryRowContext\<close> panics on it.
\<close>

theorem selector_negative_after_wrap:
  "reads (fresh [healthy 1, healthy 2, healthy 3]) (2 ^ 63 - 1) =
     \<lparr>count = 2 ^ 63 - 1, master = healthy 0,
      readreplicas = [healthy 1, healthy 2, healthy 3]\<rparr>
   \<and> snd (readReplicaNumberRoundRobin
          \<lparr>count = 2 ^ 63 - 1, master = healthy 0,
           readreplicas = [healthy 1, healthy 2, healthy 3]\<rparr>) = Returned (- 2)
   \<and> snd (snd (QueryRowContext
          \<lparr>count = 2 ^ 63 - 1, master = healthy 0,
           readreplicas = [healthy 1, healthy 2, healthy 3]\<rparr> Background ''q'' []))
       = Panic ''index out of range''"
proof -
  have "reads (fresh [healthy 1, healthy 2, healthy 3]) (2 ^ 63 - 1) =
     \<lparr>count = 2 ^ 63 - 1, master = healthy 0,
      readreplicas = [healthy 1, healthy 2, healthy 3]\<rparr>"
    unfolding reads_eq by (simp add: fresh_def)
  then show ?thesis
    by (simp add: QueryRowContext_def readReplicaNumberRoundRobin_def go_rem_def index_def)
qed

text \<open>
  C2. On a fresh router with three healthy replicas the first two read calls get the
  indices 1 and 2, and every call before the counter wraps gets \<open>k mod 3\<close>
  (\<open>selected_by_below_overflow\<close>). The call number \<open>2^63\<close> does not get
  \<open>2^63 mod 3 = 2\<close>: the counter has wrapped and the selector returns \<open>- 2\<close>.
\<close>

theorem selected_by_first_calls_and_wrap:
  "selected_by (fresh [healthy 1, healthy 2, healthy 3]) 1 = Returned 1
   \<and> selected_by (fresh [healthy 1, healthy 2, healthy 3]) 2 = Returned 2
   \<and> selected_by (fresh [healthy 1, healthy 2, healthy 3]) (2 ^ 63) = Returned (- 2)
   \<and> (2 ^ 63 :: int) mod 3 = 2"
proof -
  let ?db = "fresh [healthy 1, healthy 2, healthy 3]"
  have len: "int (length (readreplicas ?db)) = 3" and c0: "count ?db = 0"
    by (simp_all add: fresh_def)
  have c: "(0 :: 64 word) + of_nat (2 ^ 63 - 1) + 1 = 2 ^ 63"
    by simp
  have s: "sint (2 ^ 63 :: 64 word) = - (2 ^ 63)"
    by simp
  have "selected_by ?db (2 ^ 63) = go_rem (- (2 ^ 63)) 3"
    unfolding selected_by_eq len c0 c s ..
  then have w: "selected_by ?db (2 ^ 63) = Returned (- 2)"
    by (simp add: go_rem_def)
  have a: "selected_by ?db 1 = Returned 1"
    unfolding selected_by_eq len c0 by (simp add: go_rem_def)
  have b: "selected_by ?db 2 = Returned 2"
    unfolding selected_by_eq len c0 by (simp add: go_rem_def)
  show ?thesis using a b w by simp
qed

section \<open>The failover walk\<close>

lemma walk_step_ne:
  assumes "0 \<le> start" "start < int N" "0 < j" "j < N"
  shows "(start + int j) mod int N \<noteq> start"
proof
  assume "(start + int j) mod int N = start"
  then have "(start + int j) mod int N = start mod int N"
    using assms by simp
  then have "int N dvd (start + int j - start)"
    by (simp add: mod_eq_dvd_iff)
  then have "int N dvd int j" by simp
  then have "N dvd j" by (simp only: int_dvd_int_iff)
  then show False using assms by (auto dest: dvd_imp_le)
qed

lemma walk_order_Cons:
  assumes "0 \<le> start" "start < int N"
  shows "walk_order start N = start # map (\<lambda>m. (start + int m) mod int N) [1..<N]"
proof -
  have "0 < N" using assms by auto
  then have "[0..<N] = 0 # [1..<N]" by (simp add: upt_rec)
  then show ?thesis using assms by (simp add: walk_order_def)
qed

lemma distinct_walk_order: "distinct (walk_order start N)"
proof -
  have "inj_on (\<lambda>j. (start + int j) mod int N) {0..<N}"
  proof (rule inj_onI)
    fix x y assume x: "x \<in> {0..<N}" and y: "y \<in> {0..<N}"
      and e: "(start + int x) mod int N = (start + int y) mod int N"
    from e have "int N dvd (start + int x - (start + int y))"
      by (simp add: mod_eq_dvd_iff)
    then have d: "int N dvd (int x - int y)" by simp
    have "\<bar>int x - int y\<bar> < int N" using x y by auto
    with d have "int x - int y = 0"
      using zdvd_not_zless [of "\<bar>int x - int y\<bar>" "int N"] by (cases "int x - int y = 0") auto
    then show "x = y" by simp
  qed
  then show ?thesis by (simp add: walk_order_def distinct_map)
qed

lemma length_walk_order: "length (walk_order start N) = N"
  by (simp add: walk_order_def)

lemma first_success_prefix: "\<exists>rest. xs = fst (first_success f xs) @ rest"
  by (induction xs) (auto split: sum.splits)

lemma first_success_tried:
  "distinct xs \<Longrightarrow> distinct (fst (first_success f xs))"
  "length (fst (first_success f xs)) \<le> length xs"
  using first_success_prefix [of xs f]
  by (metis distinct_append, metis length_append le_add1)

lemma QueryContext_loop_walk:
  assumes "0 \<le> start" "start < int N" "N = length (readreplicas db)" "0 < j" "j \<le> N"
  shows "QueryContext_loop db ctx q args start (start + int j) tr =
     Some (tr @ map (\<lambda>i. (Replica i, MQuery))
                 (fst (first_success (query_attempt db ctx q args)
                        (map (\<lambda>m. (start + int m) mod int N) [j..<N]))),
           Returned (snd (first_success (query_attempt db ctx q args)
                        (map (\<lambda>m. (start + int m) mod int N) [j..<N]))))"
  using assms(4,5)
proof (induction "N - j" arbitrary: j tr)
  case 0
  then have j: "j = N" by simp
  have "go_rem (start + int N) (int N) = Returned start"
    using assms(1,2) by (simp add: go_rem_nonneg)
  then show ?case
    unfolding j by (subst QueryContext_loop.simps) (simp add: assms(3) [symmetric])
next
  case (Suc d)
  then have jN: "j < N" by simp
  let ?ni = "(start + int j) mod int N"
  have g: "go_rem (start + int j) (int N) = Returned ?ni"
    using assms(1) jN by (simp add: go_rem_nonneg)
  have ne: "?ni \<noteq> start"
    using walk_step_ne [OF assms(1,2) Suc.prems(1) jN] .
  have rg: "0 \<le> ?ni \<and> ?ni < int N" using jN by simp
  then have ix: "index (readreplicas db) ?ni = Returned (readreplicas db ! nat ?ni)"
    by (simp add: index_def assms(3))
  have up: "[j..<N] = j # [Suc j..<N]" using jN by (simp add: upt_rec)
  have ih: "QueryContext_loop db ctx q args start (start + int (Suc j)) tr' =
     Some (tr' @ map (\<lambda>i. (Replica i, MQuery))
                 (fst (first_success (query_attempt db ctx q args)
                        (map (\<lambda>m. (start + int m) mod int N) [Suc j..<N]))),
           Returned (snd (first_success (query_attempt db ctx q args)
                        (map (\<lambda>m. (start + int m) mod int N) [Suc j..<N]))))" for tr'
    using Suc.hyps(1) [of "Suc j" tr'] Suc.hyps(2) jN by simp
  have s: "start + int j + 1 = start + int (Suc j)" by simp
  show ?case
    apply (subst QueryContext_loop.simps)
    apply (simp only: assms(3) [symmetric] g outcome.case ne if_False ix s ih up list.map first_success.simps)
    apply (simp add: query_attempt_def split: sum.splits)
    done
qed

lemma prepare_loop_walk:
  assumes "0 \<le> start" "start < int N" "N = length (readreplicas db)" "0 < j" "j \<le> N"
  shows "prepare_loop db ctx q start (start + int j) tr =
     Some (tr @ map (\<lambda>i. (Replica i, MPrepare))
                 (fst (first_success (prepare_attempt db ctx q)
                        (map (\<lambda>m. (start + int m) mod int N) [j..<N]))),
           Returned (snd (first_success (prepare_attempt db ctx q)
                        (map (\<lambda>m. (start + int m) mod int N) [j..<N]))))"
  using assms(4,5)
proof (induction "N - j" arbitrary: j tr)
  case 0
  then have j: "j = N" by simp
  have "go_rem (start + int N) (int N) = Returned start"
    using assms(1,2) by (simp add: go_rem_nonneg)
  then show ?case
    unfolding j by (subst prepare_loop.simps) (simp add: assms(3) [symmetric])
next
  case (Suc d)
  then have jN: "j < N" by simp
  let ?ni = "(start + int j) mod int N"
  have g: "go_rem (start + int j) (int N) = Returned ?ni"
    using assms(1) jN by (simp add: go_rem_nonneg)
  have ne: "?ni \<noteq> start"
    using walk_step_ne [OF assms(1,2) Suc.prems(1) jN] .
  have rg: "0 \<le> ?ni \<and> ?ni < int N" using jN by simp
  then have ix: "index (readreplicas db) ?ni = Returned (readreplicas db ! nat ?ni)"
    by (simp add: index_def assms(3))
  have up: "[j..<N] = j # [Suc j..<N]" using jN by (simp add: upt_rec)
  have ih: "prepare_loop db ctx q start (start + int (Suc j)) tr' =
     Some (tr' @ map (\<lambda>i. (Replica i, MPrepare))
                 (fst (first_success (prepare_attempt db ctx q)
                        (map (\<lambda>m. (start + int m) mod int N) [Suc j..<N]))),
           Returned (snd (first_success (prepare_attempt db ctx q)
                        (map (\<lambda>m. (start + int m) mod int N) [Suc j..<N]))))" for tr'
    using Suc.hyps(1) [of "Suc j" tr'] Suc.hyps(2) jN by simp
  have s: "start + int j + 1 = start + int (Suc j)" by simp
  show ?case
    apply (subst prepare_loop.simps)
    apply (simp only: assms(3) [symmetric] g outcome.case ne if_False ix s ih up list.map first_success.simps)
    apply (simp add: prepare_attempt_def split: sum.splits)
    done
qed


lemma selector_start:
  assumes "readReplicaNumberRoundRobin db = (db', Returned start)" "0 \<le> start"
  shows "db' = db\<lparr>count := count db + 1\<rparr>" "readreplicas db' = readreplicas db"
    "start < int (length (readreplicas db))" "readreplicas db \<noteq> []"
  using assms go_rem_bound [of "sint (count db + 1)" "int (length (readreplicas db))" start]
  by (auto simp: readReplicaNumberRoundRobin_def Let_def)

lemma QueryContext_walk:
  assumes "readReplicaNumberRoundRobin db = (db', Returned start)" "0 \<le> start"
  shows "QueryContext db ctx q args =
     Some (db', map (\<lambda>i. (Replica i, MQuery))
                 (fst (first_success (query_attempt db ctx q args)
                        (walk_order start (length (readreplicas db))))),
           Returned (snd (first_success (query_attempt db ctx q args)
                        (walk_order start (length (readreplicas db))))))"
proof -
  let ?N = "length (readreplicas db)"
  note st = selector_start [OF assms]
  have N: "?N = length (readreplicas db')" "0 < ?N" using st by simp_all
  have lt: "start < int ?N" using st by simp
  have ix: "index (readreplicas db') start = Returned (readreplicas db ! nat start)"
    using assms(2) st by (simp add: index_def)
  have qa: "query_attempt db' ctx q args = query_attempt db ctx q args"
    by (rule ext) (simp add: query_attempt_def st(2))
  have lp: "QueryContext_loop db' ctx q args start (start + 1) tr =
     Some (tr @ map (\<lambda>i. (Replica i, MQuery))
                 (fst (first_success (query_attempt db ctx q args)
                        (map (\<lambda>m. (start + int m) mod int ?N) [1..<?N]))),
           Returned (snd (first_success (query_attempt db ctx q args)
                        (map (\<lambda>m. (start + int m) mod int ?N) [1..<?N]))))" for tr
    using QueryContext_loop_walk [OF assms(2) lt N(1), of 1 ctx q args tr] N(2) qa by simp
  show ?thesis
    unfolding QueryContext_def assms(1) walk_order_Cons [OF assms(2) lt]
    by (simp add: ix lp query_attempt_def split: sum.splits)
qed

lemma prepare_walk:
  assumes "readReplicaNumberRoundRobin db = (db', Returned start)" "0 \<le> start"
  shows "prepare db ctx q =
     Some (db', map (\<lambda>i. (Replica i, MPrepare))
                 (fst (first_success (prepare_attempt db ctx q)
                        (walk_order start (length (readreplicas db))))),
           Returned (snd (first_success (prepare_attempt db ctx q)
                        (walk_order start (length (readreplicas db))))))"
proof -
  let ?N = "length (readreplicas db)"
  note st = selector_start [OF assms]
  have N: "?N = length (readreplicas db')" "0 < ?N" using st by simp_all
  have lt: "start < int ?N" using st by simp
  have ix: "index (readreplicas db') start = Returned (readreplicas db ! nat start)"
    using assms(2) st by (simp add: index_def)
  have qa: "prepare_attempt db' ctx q = prepare_attempt db ctx q"
    by (rule ext) (simp add: prepare_attempt_def st(2))
  have lp: "prepare_loop db' ctx q start (start + 1) tr =
     Some (tr @ map (\<lambda>i. (Replica i, MPrepare))
                 (fst (first_success (prepare_attempt db ctx q)
                        (map (\<lambda>m. (start + int m) mod int ?N) [1..<?N]))),
           Returned (snd (first_success (prepare_attempt db ctx q)
                        (map (\<lambda>m. (start + int m) mod int ?N) [1..<?N]))))" for tr
    using prepare_loop_walk [OF assms(2) lt N(1), of 1 ctx q tr] N(2) qa by simp
  show ?thesis
    unfolding prepare_def assms(1) walk_order_Cons [OF assms(2) lt]
    by (simp add: ix lp prepare_attempt_def split: sum.splits)
qed

lemma selector_fst: "fst (readReplicaNumberRoundRobin db) = db\<lparr>count := count db + 1\<rparr>"
  by (simp add: readReplicaNumberRoundRobin_def Let_def)

lemma QueryContext_total:
  "\<exists>tr r. QueryContext db ctx q args = Some (db\<lparr>count := count db + 1\<rparr>, tr, r)
      \<and> (\<forall>c \<in> set tr. \<exists>i. c = (Replica i, MQuery))"
proof (cases "readReplicaNumberRoundRobin db")
  case (Pair db' r)
  have db': "db' = db\<lparr>count := count db + 1\<rparr>"
    using Pair selector_fst [of db] by simp
  show ?thesis
  proof (cases r)
    case (Panic p)
    then show ?thesis using Pair db' by (simp add: QueryContext_def)
  next
    case (Returned start)
    show ?thesis
    proof (cases "0 \<le> start")
      case True
      show ?thesis
        using QueryContext_walk [OF Pair [unfolded Returned] True, of ctx q args] db'
        by auto
    next
      case False
      then show ?thesis using Pair Returned db' by (simp add: QueryContext_def index_def)
    qed
  qed
qed

lemma prepare_total:
  "\<exists>tr r. prepare db ctx q = Some (db\<lparr>count := count db + 1\<rparr>, tr, r)
      \<and> (\<forall>c \<in> set tr. \<exists>i. c = (Replica i, MPrepare))"
proof (cases "readReplicaNumberRoundRobin db")
  case (Pair db' r)
  have db': "db' = db\<lparr>count := count db + 1\<rparr>"
    using Pair selector_fst [of db] by simp
  show ?thesis
  proof (cases r)
    case (Panic p)
    then show ?thesis using Pair db' by (simp add: prepare_def)
  next
    case (Returned start)
    show ?thesis
    proof (cases "0 \<le> start")
      case True
      show ?thesis
        using prepare_walk [OF Pair [unfolded Returned] True, of ctx q] db'
        by auto
    next
      case False
      then show ?thesis using Pair Returned db' by (simp add: prepare_def index_def)
    qed
  qed
qed


lemma walk_order_1_3: "walk_order 1 3 = [1, 2, 0]"
  by (simp add: walk_order_def upt_rec)

text \<open>
  C1. Let the selector return the index \<open>start\<close> of the slice (\<open>0 \<le> start\<close>; it is below the
  number \<open>N\<close> of replicas then, and \<open>N \<ge> 1\<close>). \<open>QueryContext\<close> and \<open>prepare\<close> both return, and
  both do the walk of the specification: they call the replicas at \<open>start\<close>,
  \<open>(start + 1) mod N\<close>, \<open>(start + 2) mod N\<close>, \<dots> in this order and stop at the first call
  that succeeds, whose result they return; when all \<open>N\<close> calls fail they return the error
  \<open>noReplicaAvailableError\<close>. No replica is called twice and at most \<open>N\<close> calls are made.
\<close>

theorem failover_walk:
  assumes "readReplicaNumberRoundRobin db = (db', Returned start)" and "0 \<le> start"
  shows "QueryContext db ctx q args =
           Some (db',
                 map (\<lambda>i. (Replica i, MQuery))
                   (fst (first_success (query_attempt db ctx q args)
                          (walk_order start (length (readreplicas db))))),
                 Returned (snd (first_success (query_attempt db ctx q args)
                                 (walk_order start (length (readreplicas db))))))
       \<and> prepare db ctx q =
           Some (db',
                 map (\<lambda>i. (Replica i, MPrepare))
                   (fst (first_success (prepare_attempt db ctx q)
                          (walk_order start (length (readreplicas db))))),
                 Returned (snd (first_success (prepare_attempt db ctx q)
                                 (walk_order start (length (readreplicas db))))))
       \<and> distinct (fst (first_success (query_attempt db ctx q args)
                          (walk_order start (length (readreplicas db)))))
       \<and> length (fst (first_success (query_attempt db ctx q args)
                          (walk_order start (length (readreplicas db))))) \<le> length (readreplicas db)
       \<and> distinct (fst (first_success (prepare_attempt db ctx q)
                          (walk_order start (length (readreplicas db)))))
       \<and> length (fst (first_success (prepare_attempt db ctx q)
                          (walk_order start (length (readreplicas db))))) \<le> length (readreplicas db)"
proof (intro conjI)
  show "distinct (fst (first_success (query_attempt db ctx q args)
                          (walk_order start (length (readreplicas db)))))"
    by (rule first_success_tried(1) [OF distinct_walk_order])
  show "distinct (fst (first_success (prepare_attempt db ctx q)
                          (walk_order start (length (readreplicas db)))))"
    by (rule first_success_tried(1) [OF distinct_walk_order])
  show "length (fst (first_success (query_attempt db ctx q args)
                          (walk_order start (length (readreplicas db))))) \<le> length (readreplicas db)"
    using first_success_tried(2) [of "query_attempt db ctx q args"
        "walk_order start (length (readreplicas db))"]
    by (simp add: length_walk_order)
  show "length (fst (first_success (prepare_attempt db ctx q)
                          (walk_order start (length (readreplicas db))))) \<le> length (readreplicas db)"
    using first_success_tried(2) [of "prepare_attempt db ctx q"
        "walk_order start (length (readreplicas db))"]
    by (simp add: length_walk_order)
qed (rule QueryContext_walk [OF assms], rule prepare_walk [OF assms])

theorem failover_walk_witness:
  "QueryContext (fresh [healthy 1, closed_db, healthy 3]) Background ''q'' [] =
     Some ((fresh [healthy 1, closed_db, healthy 3])\<lparr>count := 1\<rparr>,
           [(Replica 1, MQuery), (Replica 2, MQuery)], Returned (Inr (Rows [''q''])))
   \<and> prepare (fresh [closed_db, closed_db, closed_db]) Background ''q'' =
     Some ((fresh [closed_db, closed_db, closed_db])\<lparr>count := 1\<rparr>,
           [(Replica 1, MPrepare), (Replica 2, MPrepare), (Replica 0, MPrepare)],
           Returned (Inl noReplicaAvailableError))"
proof -
  have s1: "readReplicaNumberRoundRobin (fresh [healthy 1, closed_db, healthy 3])
            = ((fresh [healthy 1, closed_db, healthy 3])\<lparr>count := 1\<rparr>, Returned 1)"
    by (simp add: readReplicaNumberRoundRobin_def fresh_def go_rem_def)
  have s2: "readReplicaNumberRoundRobin (fresh [closed_db, closed_db, closed_db])
            = ((fresh [closed_db, closed_db, closed_db])\<lparr>count := 1\<rparr>, Returned 1)"
    by (simp add: readReplicaNumberRoundRobin_def fresh_def go_rem_def)
  have l1: "length (readreplicas (fresh [healthy 1, closed_db, healthy 3])) = 3"
    and l2: "length (readreplicas (fresh [closed_db, closed_db, closed_db])) = 3"
    by (simp_all add: fresh_def)
  have q: "first_success (query_attempt (fresh [healthy 1, closed_db, healthy 3]) Background ''q'' []) [1, 2, 0]
           = ([1, 2], Inr (Rows [''q'']))"
    by (simp add: query_attempt_def fresh_def healthy_def closed_db_def)
  have p: "first_success (prepare_attempt (fresh [closed_db, closed_db, closed_db]) Background ''q'') [1, 2, 0]
           = ([1, 2, 0], Inl noReplicaAvailableError)"
    by (simp add: prepare_attempt_def fresh_def closed_db_def)
  show ?thesis
    using failover_walk [OF s1, of Background "''q''" "[]"] failover_walk [OF s2, of Background "''q''" "[]"]
    unfolding l1 l2 walk_order_1_3 q p by simp
qed


section \<open>The single-row read\<close>

lemma QueryRowContext_at_most_one_call:
  "length (fst (snd (QueryRowContext db ctx q args))) \<le> 1"
  by (simp add: QueryRowContext_def split: prod.splits outcome.splits)

lemma QueryRowContext_direct:
  assumes "readReplicaNumberRoundRobin db = (db', Returned i)" and "0 \<le> i"
  shows "QueryRowContext db ctx q args =
           (db', [(Replica i, MQueryRow)],
            Returned (sql_QueryRowContext (readreplicas db ! nat i) ctx q args))"
  using assms selector_start [OF assms]
  by (simp add: QueryRowContext_def index_def)

text \<open>
  C8. \<open>QueryRowContext\<close> makes one call at most. When the selector returns an index \<open>i\<close> of
  the slice, that one call is \<^verbatim>\<open>QueryRowContext\<close> on the replica at \<open>i\<close>, and its row is
  returned as it is, whatever the replica answers: no other replica is tried.
\<close>

theorem QueryRowContext_no_failover:
  "length (fst (snd (QueryRowContext db ctx q args))) \<le> 1
   \<and> (\<forall>db' i. readReplicaNumberRoundRobin db = (db', Returned i) \<and> 0 \<le> i \<longrightarrow>
         QueryRowContext db ctx q args =
           (db', [(Replica i, MQueryRow)],
            Returned (sql_QueryRowContext (readreplicas db ! nat i) ctx q args)))"
  using QueryRowContext_at_most_one_call QueryRowContext_direct by blast

theorem QueryRowContext_no_failover_witness:
  "QueryRowContext (fresh [closed_db, healthy 2, healthy 3]) Background ''q'' [] =
     ((fresh [closed_db, healthy 2, healthy 3])\<lparr>count := 1\<rparr>, [(Replica 1, MQueryRow)], Returned (Row None))
   \<and> QueryRowContext ((fresh [closed_db, healthy 2, healthy 3])\<lparr>count := 2\<rparr>) Background ''q'' [] =
     ((fresh [closed_db, healthy 2, healthy 3])\<lparr>count := 3\<rparr>, [(Replica 0, MQueryRow)],
      Returned (Row (Some ''sql: database is closed'')))"
proof -
  let ?db = "fresh [closed_db, healthy 2, healthy 3]"
  have s1: "readReplicaNumberRoundRobin ?db = (?db\<lparr>count := 1\<rparr>, Returned 1) \<and> (0::int) \<le> 1"
    by (simp add: readReplicaNumberRoundRobin_def fresh_def go_rem_def)
  have s2: "readReplicaNumberRoundRobin (?db\<lparr>count := 2\<rparr>) = (?db\<lparr>count := 3\<rparr>, Returned 0) \<and> (0::int) \<le> 0"
    by (simp add: readReplicaNumberRoundRobin_def fresh_def go_rem_def)
  have r1: "sql_QueryRowContext (readreplicas ?db ! nat 1) Background ''q'' [] = Row None"
    by (simp add: fresh_def healthy_def)
  have r2: "sql_QueryRowContext (readreplicas (?db\<lparr>count := 2\<rparr>) ! nat 0) Background ''q'' []
            = Row (Some ''sql: database is closed'')"
    by (simp add: fresh_def closed_db_def)
  have a: "QueryRowContext ?db Background ''q'' [] =
     (?db\<lparr>count := 1\<rparr>, [(Replica 1, MQueryRow)], Returned (Row None))"
    using QueryRowContext_no_failover [of ?db Background "''q''" "[]"] s1 r1 by simp
  have b: "QueryRowContext (?db\<lparr>count := 2\<rparr>) Background ''q'' [] =
     (?db\<lparr>count := 3\<rparr>, [(Replica 0, MQueryRow)], Returned (Row (Some ''sql: database is closed'')))"
    using QueryRowContext_no_failover [of "?db\<lparr>count := 2\<rparr>" Background "''q''" "[]"] s2 r2 by simp
  show ?thesis using a b by simp
qed

section \<open>Close\<close>

lemma Close_loop_calls:
  "Close_loop hs i e tr =
     (if hs = [] then e else sql_Close (last hs),
      tr @ map (\<lambda>j. (Replica (i + int j), MClose)) [0..<length hs])"
proof (induction hs arbitrary: i e tr)
  case Nil
  then show ?case by simp
next
  case (Cons h hs)
  have "map (\<lambda>j. (Replica (i + int j), MClose)) [0..<Suc (length hs)]
        = (Replica i, MClose) # map (\<lambda>j. (Replica (i + 1 + int j), MClose)) [0..<length hs]"
    by (simp add: upt_rec [of 0] map_Suc_upt [symmetric] del: upt_Suc)
  then show ?case using Cons by (simp del: upt_Suc)
qed

text \<open>
  \<open>Close\<close> calls \<^verbatim>\<open>Close\<close> on the master and then on every replica, in the order of the slice,
  whatever the calls answer. What it returns is the answer of the last call alone.
\<close>

lemma Close_calls_and_result:
  "Close db =
     (db,
      (Master, MClose) # map (\<lambda>j. (Replica (int j), MClose)) [0..<length (readreplicas db)],
      if readreplicas db = [] then sql_Close (master db) else sql_Close (last (readreplicas db)))"
  by (simp add: Close_def Close_loop_calls)

lemma Close_all_succeed:
  assumes "sql_Close (master db) = None" and "\<forall>h \<in> set (readreplicas db). sql_Close h = None"
  shows "snd (snd (Close db)) = None"
  using assms by (simp add: Close_calls_and_result)

text \<open>
  C5. The master fails to close and the only replica closes: \<open>Close\<close> calls both and returns
  \<^verbatim>\<open>nil\<close>. The failure of the master is lost, and so is every failure that is followed by a
  replica that closes, because \<^verbatim>\<open>err\<close> is assigned the answer of every replica in turn.
\<close>

theorem Close_loses_failure_before_success:
  "Close \<lparr>count = 0, master = closed_db, readreplicas = [healthy 1]\<rparr> =
     (\<lparr>count = 0, master = closed_db, readreplicas = [healthy 1]\<rparr>,
      [(Master, MClose), (Replica 0, MClose)], None)
   \<and> sql_Close closed_db = Some ''close failed''"
  by (simp add: Close_def closed_db_def healthy_def)


section \<open>The health check\<close>

lemma run_pings_buf:
  assumes "\<forall>i \<in> set sched. i < length (readreplicas db)"
    and "chan_closed ch = False"
    and "length (chan_buf ch) + length sched \<le> chan_cap ch"
  shows "run_pings db ctx sched ch =
           Some (Returned (ch\<lparr>chan_buf := chan_buf ch @ map (response db ctx) sched\<rparr>))"
  using assms
proof (induction sched arbitrary: ch)
  case Nil
  then show ?case by simp
next
  case (Cons i sched)
  let ?ch' = "ch\<lparr>chan_buf := chan_buf ch @ [response db ctx i]\<rparr>"
  have "ping db ctx (int i) ch = Some (Returned ?ch')"
    using Cons.prems by (simp add: ping_def index_def response_def send_def Let_def)
  moreover have "run_pings db ctx sched ?ch' =
           Some (Returned (?ch'\<lparr>chan_buf := chan_buf ?ch' @ map (response db ctx) sched\<rparr>))"
    using Cons.prems by (intro Cons.IH) simp_all
  ultimately show ?case by simp
qed

lemma PingContext_loop_collect:
  assumes "chan_closed ch = False" "i + length (chan_buf ch) = length (readreplicas db)"
  shows "PingContext_loop db i ch errs = Some (Inr (errs @ lines_of (chan_buf ch)))"
  using assms
proof (induction "chan_buf ch" arbitrary: ch i errs)
  case Nil
  then show ?case
    by (subst PingContext_loop.simps) (simp add: lines_of_def)
next
  case (Cons v vs)
  let ?ch' = "ch\<lparr>chan_buf := vs\<rparr>"
  have r: "recv ch = Some (v, True, ?ch')"
    using Cons.hyps(2) [symmetric] by (simp add: recv_def)
  have lt: "i < length (readreplicas db)"
    using Cons.prems(2) Cons.hyps(2) [symmetric] by simp
  have ih: "PingContext_loop db (Suc i) ?ch' errs' = Some (Inr (errs' @ lines_of vs))" for errs'
    using Cons.hyps(1) [of ?ch' "Suc i" errs'] Cons.prems Cons.hyps(2) [symmetric] by simp
  have l: "lines_of (chan_buf ch) = (case err v of None \<Rightarrow> [] | Some e \<Rightarrow> [e]) @ lines_of vs"
    using Cons.hyps(2) [symmetric] by (auto simp: lines_of_def split: option.splits)
  show ?case
    by (subst PingContext_loop.simps) (simp add: r lt ih l split: option.splits)
qed

lemma err_response:
  "(err (response db ctx i) \<noteq> None) = replica_fails db ctx i"
  by (simp add: response_def replica_fails_def split: option.splits)

lemma err_response_ex:
  "(\<exists>y. err (response db ctx i) = Some y) = replica_fails db ctx i"
  using err_response [of db ctx i] by auto

lemma the_err_response:
  "replica_fails db ctx i \<Longrightarrow>
   the (err (response db ctx i)) =
     replicaPingFailError (int i + 1) (the (sql_PingContext (readreplicas db ! i) ctx))"
  by (auto simp: response_def replica_fails_def)

lemma lines_of_responses:
  "lines_of (map (response db ctx) sched) = replica_lines db ctx sched"
  by (simp add: lines_of_def replica_lines_def filter_map comp_def err_response_ex the_err_response
      cong: map_cong)


lemma PingContext_result:
  assumes "distinct sched" "set sched = {0..<length (readreplicas db)}"
  shows "PingContext db ctx sched =
     Some (db, (Master, MPing) # map (\<lambda>i. (Replica (int i), MPing)) sched,
           Returned (if master_lines db ctx @ replica_lines db ctx sched = [] then None
                     else Some (Join (master_lines db ctx @ replica_lines db ctx sched) [CHR 0x0A])))"
proof -
  have b: "\<forall>i \<in> set sched. i < length (readreplicas db)"
    using assms(2) by simp
  have "length sched = card (set sched)"
    using assms(1) by (simp add: distinct_card)
  then have n: "length sched = length (readreplicas db)"
    unfolding assms(2) by simp
  have r: "run_pings db ctx sched (make_pingChan (length (readreplicas db)))
      = Some (Returned \<lparr>chan_buf = map (response db ctx) sched,
                         chan_cap = length (readreplicas db), chan_closed = False\<rparr>)"
    using n by (subst run_pings_buf [OF b]) (simp_all add: make_pingChan_def)
  have c: "PingContext_loop db 0 \<lparr>chan_buf = map (response db ctx) sched,
                                    chan_cap = length (readreplicas db), chan_closed = False\<rparr>
              (master_lines db ctx)
     = Some (Inr (master_lines db ctx @ replica_lines db ctx sched))"
    using n by (subst PingContext_loop_collect) (simp_all add: lines_of_responses)
  show ?thesis
    unfolding PingContext_def Let_def r master_lines_def [symmetric] option.case outcome.case c
    by simp
qed


lemma replica_lines_count:
  assumes "distinct sched" "set sched = {0..<length (readreplicas db)}"
  shows "length (replica_lines db ctx sched)
         = card {i. i < length (readreplicas db) \<and> replica_fails db ctx i}"
proof -
  have "{x. replica_fails db ctx x} \<inter> {0..<length (readreplicas db)}
        = {i. i < length (readreplicas db) \<and> replica_fails db ctx i}"
    by auto
  then have "card ({x. replica_fails db ctx x} \<inter> set sched)
        = card {i. i < length (readreplicas db) \<and> replica_fails db ctx i}"
    unfolding assms(2) by simp
  moreover have "length (replica_lines db ctx sched) = length (filter (replica_fails db ctx) sched)"
    by (simp add: replica_lines_def)
  ultimately show ?thesis
    unfolding distinct_length_filter [OF assms(1), of "replica_fails db ctx"] by simp
qed



lemma no_failure_lines:
  assumes "set sched = {0..<length (readreplicas db)}"
  shows "(master_lines db ctx @ replica_lines db ctx sched = []) =
         (sql_PingContext (master db) ctx = None
          \<and> (\<forall>i < length (readreplicas db). \<not> replica_fails db ctx i))"
proof -
  have "(replica_lines db ctx sched = []) = (\<forall>i \<in> set sched. \<not> replica_fails db ctx i)"
    by (simp add: replica_lines_def filter_empty_conv)
  also have "\<dots> = (\<forall>i < length (readreplicas db). \<not> replica_fails db ctx i)"
    using assms by auto
  finally show ?thesis
    by (simp add: master_lines_def split: option.splits)
qed

lemma length_master_lines:
  "length (master_lines db ctx) = (if sql_PingContext (master db) ctx = None then 0 else 1)"
  by (simp add: master_lines_def split: option.splits)

text \<open>
  C3. Let every goroutine send once (\<open>sched\<close> lists the replica indices, each once), and let
  the ping of the master or of some replica fail. \<open>PingContext\<close> returns one error. Its text
  is the failure lines joined by newlines: the line of the master first when the master
  failed, then the lines of the failed replicas in the order in which their responses
  were received. There is one line for each target that failed and none for the others.
\<close>

theorem PingContext_joins_failure_lines:
  assumes "distinct sched" and "set sched = {0..<length (readreplicas db)}"
    and "sql_PingContext (master db) ctx \<noteq> None
         \<or> (\<exists>i < length (readreplicas db). replica_fails db ctx i)"
  shows "PingContext db ctx sched =
           Some (db, (Master, MPing) # map (\<lambda>i. (Replica (int i), MPing)) sched,
                 Returned (Some (Join (master_lines db ctx @ replica_lines db ctx sched) [CHR 0x0A])))
       \<and> length (master_lines db ctx) = (if sql_PingContext (master db) ctx = None then 0 else 1)
       \<and> length (replica_lines db ctx sched)
           = card {i. i < length (readreplicas db) \<and> replica_fails db ctx i}"
proof -
  have "master_lines db ctx @ replica_lines db ctx sched \<noteq> []"
    using assms(3) unfolding no_failure_lines [OF assms(2)] by blast
  then show ?thesis
    using PingContext_result [OF assms(1,2), of ctx] replica_lines_count [OF assms(1,2), of ctx]
      length_master_lines [of db ctx]
    by simp
qed

theorem PingContext_joins_failure_lines_witness:
  "PingContext \<lparr>count = 0, master = closed_db, readreplicas = [closed_db, healthy 2, closed_db]\<rparr>
     Background [2, 1, 0] =
   Some (\<lparr>count = 0, master = closed_db, readreplicas = [closed_db, healthy 2, closed_db]\<rparr>,
         [(Master, MPing), (Replica 2, MPing), (Replica 1, MPing), (Replica 0, MPing)],
         Returned (Some (masterPingFailError ''sql: database is closed'' @ [CHR 0x0A]
                         @ replicaPingFailError 3 ''sql: database is closed'' @ [CHR 0x0A]
                         @ replicaPingFailError 1 ''sql: database is closed'')))"
proof -
  let ?db = "\<lparr>count = 0, master = closed_db, readreplicas = [closed_db, healthy 2, closed_db]\<rparr>"
  have d: "distinct [2, 1, 0 :: nat]" by simp
  have l: "length (readreplicas ?db) = 3" by simp
  have s: "set [2, 1, 0 :: nat] = {0..<length (readreplicas ?db)}"
    unfolding l by code_simp
  have "sql_PingContext (master ?db) Background \<noteq> None"
    by (simp add: closed_db_def)
  then have f: "sql_PingContext (master ?db) Background \<noteq> None
           \<or> (\<exists>i < length (readreplicas ?db). replica_fails ?db Background i)" ..
  have m: "master_lines ?db Background = [masterPingFailError ''sql: database is closed'']"
    by (simp add: master_lines_def closed_db_def)
  have r: "replica_lines ?db Background [2, 1, 0] =
      [replicaPingFailError 3 ''sql: database is closed'', replicaPingFailError 1 ''sql: database is closed'']"
    by (simp add: replica_lines_def replica_fails_def closed_db_def healthy_def)
  have j: "Join [masterPingFailError ''sql: database is closed'',
                 replicaPingFailError 3 ''sql: database is closed'',
                 replicaPingFailError 1 ''sql: database is closed''] [CHR 0x0A]
           = masterPingFailError ''sql: database is closed'' @ [CHR 0x0A]
               @ replicaPingFailError 3 ''sql: database is closed'' @ [CHR 0x0A]
               @ replicaPingFailError 1 ''sql: database is closed''"
    by simp
  have "PingContext ?db Background [2, 1, 0] =
           Some (?db, (Master, MPing) # map (\<lambda>i. (Replica (int i), MPing)) [2, 1, 0],
                 Returned (Some (Join (master_lines ?db Background @ replica_lines ?db Background [2, 1, 0]) [CHR 0x0A])))"
    using PingContext_joins_failure_lines [OF d s f] by (rule conjunct1)
  then show ?thesis
    unfolding m r append.simps j by simp
qed

text \<open>
  C4. Let every goroutine send once. When the ping of the master and the ping of every
  replica succeed, \<open>PingContext\<close> returns \<^verbatim>\<open>nil\<close>, and so does \<open>Ping\<close>, which is \<open>PingContext\<close>
  with the background context.
\<close>

theorem PingContext_all_healthy:
  assumes "distinct sched" and "set sched = {0..<length (readreplicas db)}"
    and "sql_PingContext (master db) ctx = None"
    and "\<forall>h \<in> set (readreplicas db). sql_PingContext h ctx = None"
  shows "PingContext db ctx sched =
           Some (db, (Master, MPing) # map (\<lambda>i. (Replica (int i), MPing)) sched, Returned None)
       \<and> (ctx = Background \<longrightarrow>
            Ping db sched =
              Some (db, (Master, MPing) # map (\<lambda>i. (Replica (int i), MPing)) sched, Returned None))"
proof -
  have "\<forall>i < length (readreplicas db). \<not> replica_fails db ctx i"
    using assms(4) by (simp add: replica_fails_def)
  then have "master_lines db ctx @ replica_lines db ctx sched = []"
    using assms(3) unfolding no_failure_lines [OF assms(2)] by simp
  then show ?thesis
    using PingContext_result [OF assms(1,2), of ctx] by (auto simp: Ping_def)
qed

theorem PingContext_all_healthy_witness:
  "Ping (fresh [healthy 1, healthy 2]) [1, 0] =
     Some (fresh [healthy 1, healthy 2], [(Master, MPing), (Replica 1, MPing), (Replica 0, MPing)],
           Returned None)"
proof -
  let ?db = "fresh [healthy 1, healthy 2]"
  have d: "distinct [1, 0 :: nat]" by simp
  have l: "length (readreplicas ?db) = 2" by (simp add: fresh_def)
  have s: "set [1, 0 :: nat] = {0..<length (readreplicas ?db)}"
    unfolding l by code_simp
  have m: "sql_PingContext (master ?db) Background = None"
    by (simp add: fresh_def healthy_def)
  have r: "\<forall>h \<in> set (readreplicas ?db). sql_PingContext h Background = None"
    by (simp add: fresh_def healthy_def)
  show ?thesis
    using PingContext_all_healthy [OF d s m r] by simp
qed


section \<open>Routing of Prepare\<close>

text \<open>
  C6. \<open>PrepareContext\<close> trims the query text, lower-cases it and tests whether the result
  begins with \<^verbatim>\<open>select\<close>. When it does, \<open>PrepareContext\<close> is \<open>prepare\<close>: the read with failover,
  which calls replicas only and never the master. When it does not, the only call is
  \<^verbatim>\<open>PrepareContext\<close> on the master, whose answer is returned, and the counter is not touched.
\<close>

theorem PrepareContext_routing:
  "(HasPrefix (ToLower (TrimSpace q)) ''select'' \<longrightarrow>
      PrepareContext db ctx q = prepare db ctx q
      \<and> (\<exists>tr r. prepare db ctx q = Some (db\<lparr>count := count db + 1\<rparr>, tr, r)
                 \<and> (\<forall>c \<in> set tr. \<exists>i. c = (Replica i, MPrepare))))
   \<and> (\<not> HasPrefix (ToLower (TrimSpace q)) ''select'' \<longrightarrow>
      PrepareContext db ctx q =
        Some (db, [(Master, MPrepare)], Returned (sql_PrepareContext (master db) ctx q)))"
  using prepare_total [of db ctx q] by (simp add: PrepareContext_def Let_def)

theorem PrepareContext_routing_witness:
  "PrepareContext (fresh [healthy 1, healthy 2]) Background ''  SeLeCT * from t '' =
     prepare (fresh [healthy 1, healthy 2]) Background ''  SeLeCT * from t ''
   \<and> PrepareContext (fresh [healthy 1, healthy 2]) Background ''with t as (select 1) select * from t'' =
     Some (fresh [healthy 1, healthy 2], [(Master, MPrepare)],
           Returned (Inr (Stmt ''with t as (select 1) select * from t'' 0)))"
proof -
  have a: "HasPrefix (ToLower (TrimSpace ''  SeLeCT * from t '')) ''select''"
    by code_simp
  have b: "\<not> HasPrefix (ToLower (TrimSpace ''with t as (select 1) select * from t'')) ''select''"
    by code_simp
  have m: "sql_PrepareContext (master (fresh [healthy 1, healthy 2])) Background
             ''with t as (select 1) select * from t''
           = Inr (Stmt ''with t as (select 1) select * from t'' 0)"
    by (simp add: fresh_def healthy_def)
  show ?thesis
    using PrepareContext_routing [of "''  SeLeCT * from t ''" "fresh [healthy 1, healthy 2]" Background]
      PrepareContext_routing [of "''with t as (select 1) select * from t''" "fresh [healthy 1, healthy 2]" Background]
      a b m
    by simp
qed

section \<open>The counter\<close>

lemma Set_loop_calls:
  "Set_loop m hs i tr = tr @ map (\<lambda>j. (Replica (i + int j), m)) [0..<length hs]"
proof (induction hs arbitrary: i tr)
  case Nil
  then show ?case by simp
next
  case (Cons h hs)
  have "map (\<lambda>j. (Replica (i + int j), m)) [0..<Suc (length hs)]
        = (Replica i, m) # map (\<lambda>j. (Replica (i + 1 + int j), m)) [0..<length hs]"
    by (simp add: upt_rec [of 0] map_Suc_upt [symmetric] del: upt_Suc)
  then show ?case using Cons by (simp del: upt_Suc)
qed

text \<open>The pool settings call the master and then every replica, in the order of the slice.\<close>

lemma pool_settings_calls:
  "SetConnMaxLifetime db d =
     (db, (Master, MSetConnMaxLifetime)
          # map (\<lambda>j. (Replica (int j), MSetConnMaxLifetime)) [0..<length (readreplicas db)])"
  "SetMaxIdleConns db n =
     (db, (Master, MSetMaxIdleConns)
          # map (\<lambda>j. (Replica (int j), MSetMaxIdleConns)) [0..<length (readreplicas db)])"
  "SetMaxOpenConns db n =
     (db, (Master, MSetMaxOpenConns)
          # map (\<lambda>j. (Replica (int j), MSetMaxOpenConns)) [0..<length (readreplicas db)])"
  by (simp_all add: SetConnMaxLifetime_def SetMaxIdleConns_def SetMaxOpenConns_def Set_loop_calls)

lemma PrepareContext_total:
  "\<exists>tr r. PrepareContext db ctx q =
     Some (if HasPrefix (ToLower (TrimSpace q)) ''select'' then db\<lparr>count := count db + 1\<rparr> else db,
           tr, r)"
  using prepare_total [of db ctx q] by (auto simp: PrepareContext_def Let_def)

text \<open>
  C10. The handle has one counter, the field \<open>count\<close>. \<open>QueryContext\<close>, \<open>QueryRowContext\<close> and
  \<open>prepare\<close> (and so \<open>PrepareContext\<close> on a text that begins with \<^verbatim>\<open>select\<close>) always return and
  leave the handle with the counter incremented once and nothing else changed, however
  many replicas the walk tries. \<open>PrepareContext\<close> on any other text, \<open>ExecContext\<close>,
  \<open>BeginTx\<close>, \<open>PingContext\<close>, \<open>Close\<close> and the three pool settings leave the handle as it was.
\<close>

theorem read_calls_step_counter:
  "(\<exists>tr r. QueryContext db ctx q args = Some (db\<lparr>count := count db + 1\<rparr>, tr, r))
   \<and> fst (QueryRowContext db ctx q args) = db\<lparr>count := count db + 1\<rparr>
   \<and> (\<exists>tr r. prepare db ctx q = Some (db\<lparr>count := count db + 1\<rparr>, tr, r))
   \<and> (\<exists>tr r. PrepareContext db ctx q =
         Some (if HasPrefix (ToLower (TrimSpace q)) ''select''
               then db\<lparr>count := count db + 1\<rparr> else db, tr, r))
   \<and> fst (ExecContext db ctx q args) = db
   \<and> fst (BeginTx db ctx opts) = db
   \<and> fst (Close db) = db
   \<and> fst (SetConnMaxLifetime db d) = db
   \<and> fst (SetMaxIdleConns db n) = db
   \<and> fst (SetMaxOpenConns db n) = db
   \<and> (distinct sched \<and> set sched = {0..<length (readreplicas db)} \<longrightarrow>
        (\<exists>tr r. PingContext db ctx sched = Some (db, tr, r)))"
proof (intro conjI)
  show "\<exists>tr r. QueryContext db ctx q args = Some (db\<lparr>count := count db + 1\<rparr>, tr, r)"
    using QueryContext_total [of db ctx q args] by blast
  show "fst (QueryRowContext db ctx q args) = db\<lparr>count := count db + 1\<rparr>"
    by (simp add: QueryRowContext_def readReplicaNumberRoundRobin_def Let_def
        split: outcome.splits)
  show "\<exists>tr r. prepare db ctx q = Some (db\<lparr>count := count db + 1\<rparr>, tr, r)"
    using prepare_total [of db ctx q] by blast
  show "\<exists>tr r. PrepareContext db ctx q =
         Some (if HasPrefix (ToLower (TrimSpace q)) ''select''
               then db\<lparr>count := count db + 1\<rparr> else db, tr, r)"
    by (rule PrepareContext_total)
  show "fst (ExecContext db ctx q args) = db" by (simp add: ExecContext_def)
  show "fst (BeginTx db ctx opts) = db" by (simp add: BeginTx_def)
  show "fst (Close db) = db" by (simp add: Close_calls_and_result)
  show "fst (SetConnMaxLifetime db d) = db" by (simp add: SetConnMaxLifetime_def)
  show "fst (SetMaxIdleConns db n) = db" by (simp add: SetMaxIdleConns_def)
  show "fst (SetMaxOpenConns db n) = db" by (simp add: SetMaxOpenConns_def)
  show "distinct sched \<and> set sched = {0..<length (readreplicas db)} \<longrightarrow>
        (\<exists>tr r. PingContext db ctx sched = Some (db, tr, r))"
    using PingContext_result [of sched db ctx] by blast
qed

theorem read_calls_step_counter_witness:
  "(\<exists>tr r. QueryContext (fresh [closed_db, closed_db, healthy 3]) Background ''q'' [] =
        Some ((fresh [closed_db, closed_db, healthy 3])\<lparr>count := 1\<rparr>, tr, r))
   \<and> (\<exists>tr r. PingContext (fresh [closed_db, closed_db, healthy 3]) Background [0, 2, 1] =
        Some (fresh [closed_db, closed_db, healthy 3], tr, r))"
proof -
  let ?db = "fresh [closed_db, closed_db, healthy 3]"
  have c: "?db\<lparr>count := count ?db + 1\<rparr> = ?db\<lparr>count := 1\<rparr>"
    by (simp add: fresh_def)
  have l: "length (readreplicas ?db) = 3" by (simp add: fresh_def)
  have s: "distinct [0, 2, 1 :: nat] \<and> set [0, 2, 1 :: nat] = {0..<length (readreplicas ?db)}"
    unfolding l by code_simp
  show ?thesis
    using read_calls_step_counter [of ?db Background "''q''" "[]" None 0 0 "[0, 2, 1]"] s
    unfolding c by blast
qed


end
